theory Spec2Isabelle
  imports Complex_Main
begin

section \<open>The instructor dashboard (\<^verbatim>\<open>instructor-ui/src/App.tsx\<close>)\<close>

subsection \<open>Data as the component declares it\<close>

text \<open>
  The three interfaces of the source. Field names carry a prefix because two interfaces
  share the names \<^verbatim>\<open>id\<close>, \<^verbatim>\<open>name\<close>, \<^verbatim>\<open>badges\<close> and \<^verbatim>\<open>isOnline\<close>.
  The optional \<^verbatim>\<open>email\<close> of the view entry is an option.
\<close>

record BadgeData =
  bd_id :: string
  bd_name :: string
  bd_earnedAt :: string

record ParticipantData =
  pd_id :: string
  pd_name :: string
  pd_badges :: "BadgeData list"
  pd_connected :: bool
  pd_lastSeen :: string
  pd_isOnline :: bool

record Participant =
  p_id :: string
  p_name :: string
  p_email :: "string option"
  p_progress :: int
  p_lastActivity :: string
  p_badges :: "string list"
  p_isOnline :: bool

text \<open>The four \<^verbatim>\<open>useState\<close> cells of \<^verbatim>\<open>NestJSWorkshopDashboard\<close>, and their initial values.\<close>

record dashboard =
  query :: string
  connected :: bool
  participants :: "Participant list"
  error :: "string option"

definition initial :: dashboard where
  "initial = \<lparr>query = [], connected = False, participants = [], error = None\<rparr>"

definition setQuery :: "string \<Rightarrow> dashboard \<Rightarrow> dashboard" where
  "setQuery q s = s\<lparr>query := q\<rparr>"

subsection \<open>Numbers\<close>

text \<open>
  \<^verbatim>\<open>Math.round\<close> returns the integer nearest to its argument, a tie going upwards. The
  arguments the component passes are quotients of integers, so the model computes on
  rationals. The source computes the same quotients in double precision. For the
  progress, \<^verbatim>\<open>n / 20 * 100\<close> then differs from the integer \<open>5 * n\<close> by far less than one
  half for every length an array can have, and \<open>Math_round_near\<close> below shows that such
  a difference does not change the rounded result. For the average, the sum of integers
  is exact and the quotient is the double nearest to the exact one, which lies on the
  same side of every half-integer as long as the sum stays below \<open>2 ^ 52\<close>.
\<close>

definition Math_round :: "rat \<Rightarrow> int" where
  "Math_round x = \<lfloor>x + 1 / 2\<rfloor>"

subsection \<open>The raw-to-view projection and the fetch\<close>

text \<open>
  The arrow function mapped over \<^verbatim>\<open>data.participants\<close>. The time formatting
  \<^verbatim>\<open>new Date(p.lastSeen).toLocaleTimeString()\<close> depends on the locale and the time zone of
  the browser; it is the parameter \<open>fmt\<close>.
\<close>

definition toView :: "(string \<Rightarrow> string) \<Rightarrow> ParticipantData \<Rightarrow> Participant" where
  "toView fmt p =
     \<lparr>p_id = pd_id p,
      p_name = pd_name p,
      p_email = None,
      p_progress = Math_round (of_nat (length (pd_badges p)) / 20 * 100),
      p_lastActivity = fmt (pd_lastSeen p),
      p_badges = map bd_id (pd_badges p),
      p_isOnline = pd_isOnline p\<rparr>"

text \<open>
  A value caught by \<^verbatim>\<open>catch (err)\<close>: an instance of \<^verbatim>\<open>Error\<close> with its message, or
  anything else. An awaited promise either rejects with such a value or resolves.
\<close>

datatype thrown = ErrorInstance string | OtherValue

datatype 'a awaited = Rejects thrown | Resolves 'a

text \<open>
  The parsed body: its \<^verbatim>\<open>participants\<close> field is present or absent (\<^verbatim>\<open>data.participants || []\<close>).
  The response: its \<^verbatim>\<open>ok\<close> flag and what \<^verbatim>\<open>await response.json()\<close> gives. A body that
  cannot be read as the declared \<^verbatim>\<open>ParticipantData\<close> entries makes the \<^verbatim>\<open>try\<close> block throw
  (a \<^verbatim>\<open>SyntaxError\<close> from the parser, a \<^verbatim>\<open>TypeError\<close> from the projection); it is a
  rejection with the value thrown.
\<close>

record payload =
  participants_field :: "ParticipantData list option"

record response =
  ok :: bool
  json :: "payload awaited"

text \<open>The \<^verbatim>\<open>try\<close> block up to the computation of \<^verbatim>\<open>formatted\<close>: \<open>Inl\<close> is a throw.\<close>

definition formatted :: "(string \<Rightarrow> string) \<Rightarrow> response awaited \<Rightarrow> thrown + Participant list" where
  "formatted fmt fetched =
     (case fetched of
        Rejects err \<Rightarrow> Inl err
      | Resolves r \<Rightarrow>
          if \<not> ok r then Inl (ErrorInstance ''Failed to fetch participants'')
          else (case json r of
                  Rejects err \<Rightarrow> Inl err
                | Resolves data \<Rightarrow>
                    Inr (map (toView fmt)
                          (case participants_field data of None \<Rightarrow> [] | Some ps \<Rightarrow> ps))))"

text \<open>\<^verbatim>\<open>err instanceof Error ? err.message : "Unknown error"\<close>\<close>

definition errorMessage :: "thrown \<Rightarrow> string" where
  "errorMessage err = (case err of ErrorInstance m \<Rightarrow> m | OtherValue \<Rightarrow> ''Unknown error'')"

text \<open>One run of \<^verbatim>\<open>fetchParticipants\<close> on the outcome of the request, as a state update.\<close>

definition fetchParticipants :: "(string \<Rightarrow> string) \<Rightarrow> response awaited \<Rightarrow> dashboard \<Rightarrow> dashboard" where
  "fetchParticipants fmt fetched s =
     (case formatted fmt fetched of
        Inr ps \<Rightarrow> s\<lparr>participants := ps, connected := True, error := None\<rparr>
      | Inl err \<Rightarrow> s\<lparr>connected := False, error := Some (errorMessage err)\<rparr>)"

subsection \<open>What a render computes from the state\<close>

text \<open>
  A JavaScript string is modelled by the bytes of its UTF-8 encoding: a string of ASCII
  characters is the list of its characters, and every other character is a run of bytes
  from 128 upwards.

  \<^verbatim>\<open>toLowerCase\<close> is a built-in of the runtime. On a string of ASCII characters it
  replaces each of the letters A to Z by its small letter and leaves the rest. On other
  strings it follows the case mappings of the Unicode character database, which are not
  part of this repository and can depend on the neighbours of a character and change
  the length; there its result is the parameter \<open>unicode_lower\<close>.
\<close>

definition is_ascii :: "char \<Rightarrow> bool" where
  "is_ascii c = ((of_char c :: nat) < 128)"

definition lower_char :: "char \<Rightarrow> char" where
  "lower_char c =
     (let n = (of_char c :: nat) in if 65 \<le> n \<and> n \<le> 90 then char_of (n + 32) else c)"

definition toLowerCase :: "(string \<Rightarrow> string) \<Rightarrow> string \<Rightarrow> string" where
  "toLowerCase unicode_lower s =
     (if list_all is_ascii s then map lower_char s else unicode_lower s)"

text \<open>
  \<^verbatim>\<open>includes\<close> (here \<open>string_includes\<close>) looks for the query at every position of the
  name. In well-formed strings the search by bytes finds what the search by code units
  finds, since the encoding of a character never starts inside that of another.
\<close>

fun startsWith :: "string \<Rightarrow> string \<Rightarrow> bool" where
  "startsWith s [] = True"
| "startsWith [] (c # q) = False"
| "startsWith (x # s) (c # q) = (x = c \<and> startsWith s q)"

fun string_includes :: "string \<Rightarrow> string \<Rightarrow> bool" where
  "string_includes [] q = (q = [])"
| "string_includes (x # s) q = (startsWith (x # s) q \<or> string_includes s q)"

definition filtered :: "(string \<Rightarrow> string) \<Rightarrow> Participant list \<Rightarrow> string \<Rightarrow> Participant list" where
  "filtered unicode_lower ps q =
     filter (\<lambda>p. string_includes (toLowerCase unicode_lower (p_name p))
                                 (toLowerCase unicode_lower q)) ps"

definition activeCount :: "Participant list \<Rightarrow> nat" where
  "activeCount ps = length (filter p_isOnline ps)"

definition avg :: "Participant list \<Rightarrow> int" where
  "avg ps =
     (if length ps \<noteq> 0
      then Math_round (of_int (foldl (\<lambda>s p. s + p_progress p) 0 ps) / of_nat (length ps))
      else 0)"

text \<open>
  What the returned markup shows of the state: the two stat cards, the rows, the
  connection pill and the error banner. \<^verbatim>\<open>{error && (...)}\<close> draws the banner only for a
  message that is not the empty string.
\<close>

record rendered =
  r_activeCount :: nat
  r_avg :: int
  r_rows :: "Participant list"
  r_connected :: bool
  r_error :: "string option"

definition render :: "(string \<Rightarrow> string) \<Rightarrow> dashboard \<Rightarrow> rendered" where
  "render unicode_lower s =
     \<lparr>r_activeCount = activeCount (participants s),
      r_avg = avg (participants s),
      r_rows = filtered unicode_lower (participants s) (query s),
      r_connected = connected s,
      r_error = (case error s of None \<Rightarrow> None | Some m \<Rightarrow> if m = [] then None else Some m)\<rparr>"

subsection \<open>Badge labels\<close>

text \<open>
  The label of a badge row:
  \<^verbatim>\<open>badgeId.replace(/-/g, " ").replace(/\b\w/g, (c) => c.toUpperCase())\<close>.
  \<^verbatim>\<open>\w\<close> is a letter A to Z or a to z, a digit or the underscore. \<^verbatim>\<open>\b\w\<close> matches a word
  character that starts the string or follows a character that is not one; the scan
  carries whether the previous character was a word character. \<^verbatim>\<open>toUpperCase\<close> is only
  ever applied to one word character.
\<close>

definition is_word :: "char \<Rightarrow> bool" where
  "is_word c =
     (let n = (of_char c :: nat)
      in (48 \<le> n \<and> n \<le> 57) \<or> (65 \<le> n \<and> n \<le> 90) \<or> n = 95 \<or> (97 \<le> n \<and> n \<le> 122))"

definition upper_char :: "char \<Rightarrow> char" where
  "upper_char c =
     (let n = (of_char c :: nat) in if 97 \<le> n \<and> n \<le> 122 then char_of (n - 32) else c)"

definition replaceHyphens :: "string \<Rightarrow> string" where
  "replaceHyphens s = map (\<lambda>c. if c = CHR ''-'' then CHR '' '' else c) s"

fun upcaseWordStarts :: "bool \<Rightarrow> string \<Rightarrow> string" where
  "upcaseWordStarts prev [] = []"
| "upcaseWordStarts prev (c # cs) =
     (if is_word c \<and> \<not> prev then upper_char c else c) # upcaseWordStarts (is_word c) cs"

definition badgeLabel :: "string \<Rightarrow> string" where
  "badgeLabel badgeId = upcaseWordStarts False (replaceHyphens badgeId)"

section \<open>The commit utility (\<^verbatim>\<open>commit-all.sh\<close>)\<close>

text \<open>
  A path is the list of its components. What the script can observe of its surroundings:
  which directories exist (\<^verbatim>\<open>[ -d ... ]\<close> and the success of \<^verbatim>\<open>cd\<close>), and in which
  directories \<^verbatim>\<open>git diff --cached --quiet\<close>, run after \<^verbatim>\<open>git add -A\<close>, exits with status 0.
\<close>

type_synonym path = "string list"

record world =
  dirs :: "path list"
  clean :: "path list"

definition is_dir :: "world \<Rightarrow> path \<Rightarrow> bool" where
  "is_dir w p = (p \<in> set (dirs w))"

definition diff_cached_quiet :: "world \<Rightarrow> path \<Rightarrow> bool" where
  "diff_cached_quiet w p = (p \<in> set (clean w))"

text \<open>
  What the script does to the outside, in order: the lines it prints and the two git
  commands that change a repository, each with the directory it runs in. The exit
  statuses of \<^verbatim>\<open>git add\<close> and \<^verbatim>\<open>git commit\<close> are not looked at by the script.
\<close>

datatype notice = Usage | Processing path | NoChanges path | Committed path | AllProcessed

datatype event = Echo notice | GitAddAll path | GitCommit path string

record shell =
  cwd :: path
  out :: "event list"

definition emit :: "event \<Rightarrow> shell \<Rightarrow> shell" where
  "emit e sh = sh\<lparr>out := out sh @ [e]\<rparr>"

text \<open>
  The function \<^verbatim>\<open>commit_in_dir\<close>. It runs in the calling shell, so its \<^verbatim>\<open>cd\<close> changes the
  directory of the script; \<^verbatim>\<open>cd "$dir" || return\<close> leaves when the directory cannot be
  entered.
\<close>

definition commit_in_dir :: "world \<Rightarrow> string \<Rightarrow> path \<Rightarrow> shell \<Rightarrow> shell" where
  "commit_in_dir w COMMIT_MSG dir sh =
     (let sh1 = emit (Echo (Processing dir)) sh
      in if \<not> is_dir w dir then sh1
         else
           (let sh2 = emit (GitAddAll dir) (sh1\<lparr>cwd := dir\<rparr>)
            in if diff_cached_quiet w (cwd sh2) then emit (Echo (NoChanges dir)) sh2
               else emit (Echo (Committed dir)) (emit (GitCommit (cwd sh2) COMMIT_MSG) sh2)))"

definition subrepos :: "string list" where
  "subrepos = [''instructor-service'', ''instructor-ui'', ''participant-service'']"

text \<open>
  The \<^verbatim>\<open>for\<close> loop. The test \<^verbatim>\<open>[ -d "$subrepo/.git" ]\<close> names a relative path, which is
  resolved in the current directory of the shell; the argument of \<^verbatim>\<open>commit_in_dir\<close> is
  the absolute \<^verbatim>\<open>"$MAIN_DIR/$subrepo"\<close>.
\<close>

fun for_subrepos :: "world \<Rightarrow> string \<Rightarrow> path \<Rightarrow> string list \<Rightarrow> shell \<Rightarrow> shell" where
  "for_subrepos w COMMIT_MSG MAIN_DIR [] sh = sh"
| "for_subrepos w COMMIT_MSG MAIN_DIR (subrepo # others) sh =
     for_subrepos w COMMIT_MSG MAIN_DIR others
       (if is_dir w (cwd sh @ [subrepo, ''.git''])
        then commit_in_dir w COMMIT_MSG (MAIN_DIR @ [subrepo]) sh
        else sh)"

text \<open>
  The whole script, started in the directory \<open>pwd\<close> with the arguments \<open>args\<close>.
  \<^verbatim>\<open>[ -z "$1" ]\<close> holds when there is no first argument or it is the empty string.
\<close>

record result =
  status :: nat
  events :: "event list"

definition commit_all :: "world \<Rightarrow> path \<Rightarrow> string list \<Rightarrow> result" where
  "commit_all w pwd args =
     (let arg1 = (case args of [] \<Rightarrow> [] | a # _ \<Rightarrow> a)
      in if arg1 = [] then \<lparr>status = 1, events = [Echo Usage]\<rparr>
         else
           (let COMMIT_MSG = arg1;
                MAIN_DIR = pwd;
                sh1 = for_subrepos w COMMIT_MSG MAIN_DIR subrepos \<lparr>cwd = pwd, out = []\<rparr>;
                sh2 = (if is_dir w MAIN_DIR then sh1\<lparr>cwd := MAIN_DIR\<rparr> else sh1);
                sh3 = commit_in_dir w COMMIT_MSG MAIN_DIR sh2;
                sh4 = emit (Echo AllProcessed) sh3
            in \<lparr>status = 0, events = out sh4\<rparr>))"

section \<open>Notions of the specification\<close>

text \<open>
  The alphabet, as two rows of letters: the small letter of a capital and the capital of
  a small letter are read off the rows, and a character that is not in the first row is
  its own image.
\<close>

definition capital_letters :: string where
  "capital_letters = ''ABCDEFGHIJKLMNOPQRSTUVWXYZ''"

definition small_letters :: string where
  "small_letters = ''abcdefghijklmnopqrstuvwxyz''"

definition small_of :: "char \<Rightarrow> char" where
  "small_of c = (case map_of (zip capital_letters small_letters) c of Some l \<Rightarrow> l | None \<Rightarrow> c)"

definition capital_of :: "char \<Rightarrow> char" where
  "capital_of c = (case map_of (zip small_letters capital_letters) c of Some l \<Rightarrow> l | None \<Rightarrow> c)"

text \<open>
  A name contains a query as a case-insensitive substring when some contiguous part of
  the name agrees with the query character by character, a capital letter agreeing
  with its small letter.
\<close>

definition same_ignoring_case :: "string \<Rightarrow> string \<Rightarrow> bool" where
  "same_ignoring_case a b = list_all2 (\<lambda>x y. small_of x = small_of y) a b"

definition ci_substring :: "string \<Rightarrow> string \<Rightarrow> bool" where
  "ci_substring q name = (\<exists>pre mid suf. name = pre @ mid @ suf \<and> same_ignoring_case mid q)"


text \<open>
  A hyphenated slug is made of letters, digits, underscores and hyphens; its words are
  the parts between the hyphens. The label the specification describes: the words, each
  with its first character replaced by its capital, separated by single spaces.
\<close>

definition slug_characters :: string where
  "slug_characters = ''abcdefghijklmnopqrstuvwxyzABCDEFGHIJKLMNOPQRSTUVWXYZ0123456789_-''"

definition is_slug :: "string \<Rightarrow> bool" where
  "is_slug s = list_all (\<lambda>c. c \<in> set slug_characters) s"

fun slug_words :: "string \<Rightarrow> string list" where
  "slug_words [] = [[]]"
| "slug_words (c # cs) =
     (if c = CHR ''-'' then [] # slug_words cs
      else (case slug_words cs of w # ws \<Rightarrow> (c # w) # ws | [] \<Rightarrow> [[c]]))"

fun capitalize :: "string \<Rightarrow> string" where
  "capitalize [] = []"
| "capitalize (c # cs) = capital_of c # cs"

fun join_spaces :: "string list \<Rightarrow> string" where
  "join_spaces [] = []"
| "join_spaces (w # ws) = (if ws = [] then w else w @ CHR '' '' # join_spaces ws)"

text \<open>
  Two values of the built-in \<^verbatim>\<open>toLowerCase\<close> on strings with the Greek capital sigma
  (U+03A3, the bytes CE A3). The letter A followed by the sigma becomes the letter a
  followed by the final small sigma (U+03C2, the bytes CF 82), since the sigma ends a
  word; the sigma alone becomes the small sigma (U+03C3, the bytes CF 83). The function
  has these two values of the built-in; no other value of it is used below.
\<close>

definition final_sigma_sample :: "string \<Rightarrow> string" where
  "final_sigma_sample s =
     (if s = [CHR ''A'', CHR 0xCE, CHR 0xA3] then [CHR ''a'', CHR 0xCF, CHR 0x82]
      else if s = [CHR 0xCE, CHR 0xA3] then [CHR 0xCF, CHR 0x83]
      else s)"

text \<open>
  The invariant of the list of events used in the proofs about the script: the
  directories staged are those announced that could be entered, the commits are those
  of the staged directories where \<^verbatim>\<open>git diff\<close> reported changes, with the given message,
  and the notices those of the staged directories where it reported none.
\<close>

definition consistent :: "world \<Rightarrow> string \<Rightarrow> event list \<Rightarrow> bool" where
  "consistent w msg es \<longleftrightarrow>
     (\<forall>d. GitAddAll d \<in> set es \<longleftrightarrow> Echo (Processing d) \<in> set es \<and> is_dir w d)
     \<and> (\<forall>d m. GitCommit d m \<in> set es \<longleftrightarrow>
           m = msg \<and> GitAddAll d \<in> set es \<and> \<not> diff_cached_quiet w d)
     \<and> (\<forall>d. Echo (NoChanges d) \<in> set es \<longleftrightarrow> GitAddAll d \<in> set es \<and> diff_cached_quiet w d)"

section \<open>Properties of the dashboard\<close>

subsection \<open>Rounding\<close>

lemma Math_round_of_int: "Math_round (of_int k) = k"
  unfolding Math_round_def by (rule floor_unique) simp_all

lemma Math_round_near: "\<bar>x - of_int k\<bar> < 1 / 2 \<Longrightarrow> Math_round x = k"
  unfolding Math_round_def by (rule floor_unique) linarith+


lemma progress_scaled: "Math_round (of_nat n / 20 * 100) = 5 * int n"
proof -
  have "(of_nat n / 20 * 100 :: rat) = of_int (5 * int n)"
    by simp
  then show ?thesis
    by (simp only: Math_round_of_int)
qed

text \<open>
  Claim C1. For a raw participant with \<open>n\<close> badges the derived progress is
  \<open>round (n / 20 * 100)\<close>, which is \<open>5 * n\<close> and is not capped at 100: 5 badges give 25,
  none gives 0, 20 give 100 and 22 give 110.
\<close>

theorem progress_from_badge_count:
  "p_progress (toView fmt p) = Math_round (of_nat (length (pd_badges p)) / 20 * 100)
   \<and> p_progress (toView fmt p) = 5 * int (length (pd_badges p))
   \<and> p_progress (toView fmt (p\<lparr>pd_badges := replicate 5 b\<rparr>)) = 25
   \<and> p_progress (toView fmt (p\<lparr>pd_badges := []\<rparr>)) = 0
   \<and> p_progress (toView fmt (p\<lparr>pd_badges := replicate 20 b\<rparr>)) = 100
   \<and> p_progress (toView fmt (p\<lparr>pd_badges := replicate 22 b\<rparr>)) = 110"
proof -
  have a: "p_progress (toView fmt r) = Math_round (of_nat (length (pd_badges r)) / 20 * 100)"
    for r
    by (simp add: toView_def)
  have b: "p_progress (toView fmt r) = 5 * int (length (pd_badges r))" for r
    by (simp only: a progress_scaled)
  have "p_progress (toView fmt (p\<lparr>pd_badges := replicate 5 b\<rparr>)) = 25"
    and "p_progress (toView fmt (p\<lparr>pd_badges := []\<rparr>)) = 0"
    and "p_progress (toView fmt (p\<lparr>pd_badges := replicate 20 b\<rparr>)) = 100"
    and "p_progress (toView fmt (p\<lparr>pd_badges := replicate 22 b\<rparr>)) = 110"
    by (simp_all add: b)
  with a b show ?thesis
    by (intro conjI)
qed

subsection \<open>The fetch\<close>

lemma formatted_success:
  "formatted fmt (Resolves \<lparr>ok = True, json = Resolves data\<rparr>) =
     Inr (map (toView fmt) (case participants_field data of None \<Rightarrow> [] | Some ps \<Rightarrow> ps))"
  by (simp add: formatted_def)

lemma fetch_success:
  "fetchParticipants fmt (Resolves \<lparr>ok = True, json = Resolves data\<rparr>) s =
     s\<lparr>participants :=
          map (toView fmt) (case participants_field data of None \<Rightarrow> [] | Some ps \<Rightarrow> ps),
       connected := True, error := None\<rparr>"
  by (simp add: fetchParticipants_def formatted_success)

lemma fetch_failure:
  "formatted fmt fetched = Inl err \<Longrightarrow>
     fetchParticipants fmt fetched s = s\<lparr>connected := False, error := Some (errorMessage err)\<rparr>"
  by (simp add: fetchParticipants_def)

text \<open>
  Claim C2. After a successful fetch the view list is the image of the fetched raw list
  (the empty list when the \<^verbatim>\<open>participants\<close> field is absent) under the projection: same
  length, same order, each entry with the raw id, name and online flag and with the ids
  of the raw badges in order; and it does not depend on the state before the fetch.
\<close>

theorem view_list_after_successful_fetch:
  "let raw = (case participants_field data of None \<Rightarrow> [] | Some ps \<Rightarrow> ps);
       fetched = Resolves \<lparr>ok = True, json = Resolves data\<rparr>;
       view = participants (fetchParticipants fmt fetched s)
   in view = map (toView fmt) raw
      \<and> length view = length raw
      \<and> (\<forall>i<length raw.
            p_id (view ! i) = pd_id (raw ! i)
            \<and> p_name (view ! i) = pd_name (raw ! i)
            \<and> p_isOnline (view ! i) = pd_isOnline (raw ! i)
            \<and> p_badges (view ! i) = map bd_id (pd_badges (raw ! i)))
      \<and> participants (fetchParticipants fmt fetched s') = view"
  by (simp add: fetch_success toView_def)

theorem view_list_after_successful_fetch_witness:
  "let ana = \<lparr>pd_id = ''1'', pd_name = ''Ana'',
              pd_badges = [\<lparr>bd_id = ''di-ninja'', bd_name = ''DI Ninja'', bd_earnedAt = ''t''\<rparr>],
              pd_connected = True, pd_lastSeen = ''t'', pd_isOnline = True\<rparr>;
       view = participants
         (fetchParticipants id
           (Resolves \<lparr>ok = True, json = Resolves \<lparr>participants_field = Some [ana]\<rparr>\<rparr>) initial)
   in (0::nat) < length [ana]
      \<and> length view = 1
      \<and> p_id (view ! 0) = ''1'' \<and> p_name (view ! 0) = ''Ana'' \<and> p_isOnline (view ! 0)
      \<and> p_badges (view ! 0) = [''di-ninja'']"
  using view_list_after_successful_fetch
    [of "\<lparr>participants_field = Some
           [\<lparr>pd_id = ''1'', pd_name = ''Ana'',
             pd_badges = [\<lparr>bd_id = ''di-ninja'', bd_name = ''DI Ninja'', bd_earnedAt = ''t''\<rparr>],
             pd_connected = True, pd_lastSeen = ''t'', pd_isOnline = True\<rparr>]\<rparr>"
        id initial initial]
  by (simp add: Let_def fetch_success toView_def)

text \<open>
  Claim C3. A fetch fails when the request is rejected, when the response is not OK or
  when reading the body throws. Then the connectivity status is false, the error message
  is the message of the thrown \<^verbatim>\<open>Error\<close>, or \<^verbatim>\<open>Unknown error\<close> when the thrown value is
  not an \<^verbatim>\<open>Error\<close> and so has no message the handler reads, and the view list and the
  rows the search shows are those from before the fetch.
\<close>

theorem failed_fetch_keeps_view_list:
  "formatted fmt (Rejects err) = Inl err
   \<and> formatted fmt (Resolves \<lparr>ok = False, json = body\<rparr>)
       = Inl (ErrorInstance ''Failed to fetch participants'')
   \<and> formatted fmt (Resolves \<lparr>ok = True, json = Rejects err\<rparr>) = Inl err
   \<and> errorMessage (ErrorInstance m) = m
   \<and> errorMessage OtherValue = ''Unknown error''
   \<and> (formatted fmt fetched = Inl e \<longrightarrow>
        (let s' = fetchParticipants fmt fetched s
         in \<not> connected s'
            \<and> error s' = Some (errorMessage e)
            \<and> participants s' = participants s
            \<and> r_rows (render u s') = r_rows (render u s)))"
  by (simp add: fetch_failure render_def) (simp add: formatted_def errorMessage_def)

theorem failed_fetch_keeps_view_list_witness:
  "let shown = \<lparr>p_id = ''1'', p_name = ''Ana'', p_email = None, p_progress = 25,
                p_lastActivity = ''t'', p_badges = [], p_isOnline = True\<rparr>;
       s = initial\<lparr>participants := [shown], connected := True, query := ''an''\<rparr>;
       fetched = Resolves \<lparr>ok = False, json = Rejects OtherValue\<rparr>;
       s' = fetchParticipants id fetched s
   in formatted id fetched = Inl (ErrorInstance ''Failed to fetch participants'')
      \<and> \<not> connected s'
      \<and> error s' = Some ''Failed to fetch participants''
      \<and> participants s' = [shown]
      \<and> r_rows (render id s') = r_rows (render id s)"
  using failed_fetch_keeps_view_list
    [of id OtherValue "Rejects OtherValue" "''Failed to fetch participants''"
        "Resolves \<lparr>ok = False, json = Rejects OtherValue\<rparr>"
        "ErrorInstance ''Failed to fetch participants''"
        "initial\<lparr>participants :=
            [\<lparr>p_id = ''1'', p_name = ''Ana'', p_email = None, p_progress = 25,
              p_lastActivity = ''t'', p_badges = [], p_isOnline = True\<rparr>],
          connected := True, query := ''an''\<rparr>" id]
  by (simp add: Let_def initial_def)

text \<open>
  Claim C7. After a successful fetch the connectivity status is true and no error
  message is stored, whatever the state before; in particular after a fetch that failed.
\<close>

theorem successful_fetch_clears_error:
  "let fetched = Resolves \<lparr>ok = True, json = Resolves data\<rparr>
   in connected (fetchParticipants fmt fetched s)
      \<and> error (fetchParticipants fmt fetched s) = None
      \<and> connected (fetchParticipants fmt fetched (fetchParticipants fmt failing s))
      \<and> error (fetchParticipants fmt fetched (fetchParticipants fmt failing s)) = None"
  by (simp add: fetch_success)

subsection \<open>The search filter\<close>

lemma startsWith_iff: "startsWith s q \<longleftrightarrow> (\<exists>suf. s = q @ suf)"
  by (induction s q rule: startsWith.induct) auto

lemma string_includes_iff: "string_includes s q \<longleftrightarrow> (\<exists>pre suf. s = pre @ q @ suf)"
proof (induction s)
  case Nil
  then show ?case by simp
next
  case (Cons x s)
  show ?case
  proof
    assume "string_includes (x # s) q"
    then consider "startsWith (x # s) q" | "string_includes s q"
      by auto
    then show "\<exists>pre suf. x # s = pre @ q @ suf"
    proof cases
      case 1
      then obtain suf where "x # s = q @ suf"
        by (auto simp: startsWith_iff)
      then have "x # s = [] @ q @ suf"
        by simp
      then show ?thesis by blast
    next
      case 2
      with Cons obtain pre suf where "s = pre @ q @ suf"
        by auto
      then have "x # s = (x # pre) @ q @ suf"
        by simp
      then show ?thesis by blast
    qed
  next
    assume "\<exists>pre suf. x # s = pre @ q @ suf"
    then obtain pre suf where eq: "x # s = pre @ q @ suf"
      by blast
    show "string_includes (x # s) q"
    proof (cases pre)
      case Nil
      with eq have "startsWith (x # s) q"
        by (auto simp: startsWith_iff)
      then show ?thesis by simp
    next
      case (Cons y pre')
      with eq have "s = pre' @ q @ suf"
        by simp
      with Cons.IH have "string_includes s q"
        by blast
      then show ?thesis by simp
    qed
  qed
qed

lemma lower_char_small_of: "\<forall>c. lower_char c = small_of c"
  by code_simp

lemma same_ignoring_case_iff:
  "same_ignoring_case a b \<longleftrightarrow> map lower_char a = map lower_char b"
  unfolding same_ignoring_case_def
  by (induction a arbitrary: b) (auto simp: list_all2_Cons1 lower_char_small_of)

lemma includes_lowered_iff:
  "string_includes (map lower_char name) (map lower_char q) \<longleftrightarrow> ci_substring q name"
proof
  assume "string_includes (map lower_char name) (map lower_char q)"
  then obtain pre suf where "map lower_char name = pre @ map lower_char q @ suf"
    by (auto simp: string_includes_iff)
  then obtain a b c where "name = a @ b @ c" and "map lower_char b = map lower_char q"
    by (auto simp: map_eq_append_conv append_eq_map_conv)
  then show "ci_substring q name"
    unfolding ci_substring_def same_ignoring_case_iff by blast
next
  assume "ci_substring q name"
  then obtain pre mid suf where "name = pre @ mid @ suf"
    and "map lower_char mid = map lower_char q"
    unfolding ci_substring_def same_ignoring_case_iff by blast
  then have "map lower_char name = map lower_char pre @ map lower_char q @ map lower_char suf"
    by simp
  then show "string_includes (map lower_char name) (map lower_char q)"
    unfolding string_includes_iff by blast
qed

text \<open>
  Claim C6, as stated, fails for names outside ASCII, where \<^verbatim>\<open>toLowerCase\<close> looks at the
  neighbours of a letter. The name made of the letter A and the Greek capital sigma
  contains the query made of that sigma alone, as it stands; lower-cased, the name ends
  in the final small sigma and the query is the other small sigma, so the filter drops
  the participant.
\<close>

theorem search_filter_final_sigma_counterexample:
  "[CHR ''A'', CHR 0xCE, CHR 0xA3] = [CHR ''A''] @ [CHR 0xCE, CHR 0xA3] @ []
   \<and> ci_substring [CHR 0xCE, CHR 0xA3] [CHR ''A'', CHR 0xCE, CHR 0xA3]
   \<and> filtered final_sigma_sample
        [\<lparr>p_id = ''1'', p_name = [CHR ''A'', CHR 0xCE, CHR 0xA3], p_email = None,
          p_progress = 0, p_lastActivity = ''t'', p_badges = [], p_isOnline = True\<rparr>]
        [CHR 0xCE, CHR 0xA3] = []"
proof -
  have "same_ignoring_case [CHR 0xCE, CHR 0xA3] [CHR 0xCE, CHR 0xA3]"
    by (simp add: same_ignoring_case_def)
  then have "\<exists>pre mid suf. [CHR ''A'', CHR 0xCE, CHR 0xA3] = pre @ mid @ suf
      \<and> same_ignoring_case mid [CHR 0xCE, CHR 0xA3]"
    by (intro exI [of _ "[CHR ''A'']"] exI [of _ "[CHR 0xCE, CHR 0xA3]"] exI [of _ "[]"]) simp
  then have c: "ci_substring [CHR 0xCE, CHR 0xA3] [CHR ''A'', CHR 0xCE, CHR 0xA3]"
    by (simp only: ci_substring_def)
  have n: "\<not> list_all is_ascii [CHR ''A'', CHR 0xCE, CHR 0xA3]"
    and q: "\<not> list_all is_ascii [CHR 0xCE, CHR 0xA3]"
    by (simp_all add: is_ascii_def)
  have "toLowerCase final_sigma_sample [CHR ''A'', CHR 0xCE, CHR 0xA3]
      = [CHR ''a'', CHR 0xCF, CHR 0x82]"
    and "toLowerCase final_sigma_sample [CHR 0xCE, CHR 0xA3] = [CHR 0xCF, CHR 0x83]"
    unfolding toLowerCase_def by (simp_all only: n q if_False) (simp_all add: final_sigma_sample_def)
  then have "filtered final_sigma_sample
        [\<lparr>p_id = ''1'', p_name = [CHR ''A'', CHR 0xCE, CHR 0xA3], p_email = None,
          p_progress = 0, p_lastActivity = ''t'', p_badges = [], p_isOnline = True\<rparr>]
        [CHR 0xCE, CHR 0xA3] = []"
    by (simp add: filtered_def)
  with c show ?thesis
    by simp
qed

text \<open>
  Claim C6, amended. For every view list and query the search filter returns, in the
  order of the list, exactly the participants whose lower-cased name contains the
  lower-cased query, and it is a function of the list and the query alone. When the
  query and the names are made of ASCII characters, these are exactly the participants
  whose name contains the query as a case-insensitive substring. With the query \<^verbatim>\<open>ana\<close>
  a participant named \<^verbatim>\<open>Ana\<close> is kept and one named \<^verbatim>\<open>Bob\<close> is dropped.
\<close>

theorem search_filter_case_insensitive:
  "filtered u ps q
     = filter (\<lambda>p. \<exists>pre suf. toLowerCase u (p_name p) = pre @ toLowerCase u q @ suf) ps
   \<and> r_rows (render u s) = filtered u (participants s) (query s)
   \<and> (list_all is_ascii q \<and> list_all (\<lambda>p. list_all is_ascii (p_name p)) ps \<longrightarrow>
        filtered u ps q = filter (\<lambda>p. ci_substring q (p_name p)) ps)
   \<and> filtered u [a\<lparr>p_name := ''Ana''\<rparr>, b\<lparr>p_name := ''Bob''\<rparr>] ''ana'' = [a\<lparr>p_name := ''Ana''\<rparr>]"
proof -
  have general: "filtered u ps q
      = filter (\<lambda>p. \<exists>pre suf. toLowerCase u (p_name p) = pre @ toLowerCase u q @ suf) ps"
    by (simp add: filtered_def string_includes_iff)
  have rows: "r_rows (render u s) = filtered u (participants s) (query s)"
    by (simp add: render_def)
  have ascii: "filtered u xs y = filter (\<lambda>p. ci_substring y (p_name p)) xs"
    if y: "list_all is_ascii y" and xs: "list_all (\<lambda>p. list_all is_ascii (p_name p)) xs"
    for xs y
  proof -
    have "string_includes (toLowerCase u (p_name p)) (toLowerCase u y)
        \<longleftrightarrow> ci_substring y (p_name p)" if "p \<in> set xs" for p
    proof -
      from xs that have "list_all is_ascii (p_name p)"
        by (simp add: list_all_iff)
      with y show ?thesis
        by (simp add: toLowerCase_def includes_lowered_iff)
    qed
    then show ?thesis
      unfolding filtered_def by (intro filter_cong refl)
  qed
  have names: "list_all is_ascii ''Ana''" "list_all is_ascii ''Bob''" "list_all is_ascii ''ana''"
    by code_simp+
  have "map lower_char ''Ana'' = ''ana''" and "map lower_char ''Bob'' = ''bob''"
    and "map lower_char ''ana'' = ''ana''"
    by code_simp+
  with names
  have example: "filtered u [a\<lparr>p_name := ''Ana''\<rparr>, b\<lparr>p_name := ''Bob''\<rparr>] ''ana''
      = [a\<lparr>p_name := ''Ana''\<rparr>]"
    by (simp add: filtered_def toLowerCase_def)
  from general rows ascii example show ?thesis
    by (intro conjI impI) blast+
qed

theorem search_filter_case_insensitive_witness:
  "let ana = \<lparr>p_id = ''1'', p_name = ''Ana Lima'', p_email = None, p_progress = 25,
              p_lastActivity = ''t'', p_badges = [], p_isOnline = True\<rparr>;
       bob = ana\<lparr>p_id := ''2'', p_name := ''Bob''\<rparr>
   in list_all is_ascii ''A L''
      \<and> list_all (\<lambda>p. list_all is_ascii (p_name p)) [ana, bob]
      \<and> filtered id [ana, bob] ''A L'' = [ana]
      \<and> filter (\<lambda>p. ci_substring ''A L'' (p_name p)) [ana, bob] = [ana]"
proof -
  define ana where "ana = \<lparr>p_id = ''1'', p_name = ''Ana Lima'', p_email = None,
      p_progress = 25, p_lastActivity = ''t'', p_badges = [], p_isOnline = True\<rparr>"
  define bob where "bob = ana\<lparr>p_id := ''2'', p_name := ''Bob''\<rparr>"
  have q: "list_all is_ascii ''A L''"
    by code_simp
  have "list_all is_ascii ''Ana Lima''" and "list_all is_ascii ''Bob''"
    by code_simp+
  then have names: "list_all (\<lambda>p. list_all is_ascii (p_name p)) [ana, bob]"
    by (simp add: ana_def bob_def)
  have "string_includes (map lower_char ''Ana Lima'') (map lower_char ''A L'')"
    and "\<not> string_includes (map lower_char ''Bob'') (map lower_char ''A L'')"
    by code_simp+
  then have f: "filtered id [ana, bob] ''A L'' = [ana]"
    unfolding filtered_def toLowerCase_def using q names by (simp add: ana_def bob_def)
  note t = search_filter_case_insensitive [of id "[ana, bob]" "''A L''" initial ana bob]
  from t have "list_all is_ascii ''A L'' \<and> list_all (\<lambda>p. list_all is_ascii (p_name p)) [ana, bob]
      \<longrightarrow> filtered id [ana, bob] ''A L'' = filter (\<lambda>p. ci_substring ''A L'' (p_name p)) [ana, bob]"
    by (elim conjE)
  with q names f have "filter (\<lambda>p. ci_substring ''A L'' (p_name p)) [ana, bob] = [ana]"
    by (simp only:)
  with q names f show ?thesis
    unfolding Let_def ana_def [symmetric] bob_def [symmetric] by (intro conjI)
qed

subsection \<open>The aggregates\<close>





text \<open>
  Claim C10. The two aggregates a render shows are the same under any two queries for
  the same view list: setting the query changes nothing of the render but the rows.
\<close>

theorem aggregates_independent_of_query:
  "r_activeCount (render u (setQuery q1 s)) = r_activeCount (render u (setQuery q2 s))
   \<and> r_avg (render u (setQuery q1 s)) = r_avg (render u (setQuery q2 s))
   \<and> render u (setQuery q s) = (render u s)\<lparr>r_rows := filtered u (participants s) q\<rparr>
   \<and> participants (setQuery q s) = participants s"
  by (simp add: render_def setQuery_def)

subsection \<open>Badge labels\<close>

lemma slug_words_nonempty: "slug_words s \<noteq> []"
  by (induction s) (auto split: list.splits)

lemma upper_char_capital_of: "\<forall>c. upper_char c = capital_of c"
  by code_simp

lemma slug_character_iff: "\<forall>c. (c \<in> set slug_characters) = (is_word c \<or> c = CHR ''-'')"
  by code_simp

lemma not_word_separators: "\<not> is_word CHR ''-''" "\<not> is_word CHR '' ''"
  by (simp_all add: is_word_def)

lemma capitalize_upper_char: "capitalize (c # cs) = upper_char c # cs"
  by (simp add: upper_char_capital_of)

lemma label_words:
  "is_slug s \<Longrightarrow>
     upcaseWordStarts False (replaceHyphens s) = join_spaces (map capitalize (slug_words s))
   \<and> upcaseWordStarts True (replaceHyphens s)
       = join_spaces (hd (slug_words s) # map capitalize (tl (slug_words s)))"
proof (induction s)
  case Nil
  then show ?case by (simp add: replaceHyphens_def)
next
  case (Cons c cs)
  then have IH:
    "upcaseWordStarts False (replaceHyphens cs) = join_spaces (map capitalize (slug_words cs))"
    "upcaseWordStarts True (replaceHyphens cs)
       = join_spaces (hd (slug_words cs) # map capitalize (tl (slug_words cs)))"
    by (simp_all add: is_slug_def)
  obtain w ws where ws: "slug_words cs = w # ws"
    using slug_words_nonempty [of cs] by (cases "slug_words cs") auto
  show ?case
  proof (cases "c = CHR ''-''")
    case True
    then show ?thesis
      using IH ws by (simp add: replaceHyphens_def not_word_separators)
  next
    case False
    with Cons.prems have "is_word c"
      by (simp add: is_slug_def slug_character_iff)
    with False show ?thesis
      using IH ws by (simp add: replaceHyphens_def capitalize_upper_char del: capitalize.simps)
  qed
qed

text \<open>
  Claim C8. For a badge identifier that is a hyphenated slug the label is the words of
  the slug, each with its first character replaced by its capital, separated by spaces
  in place of the hyphens: \<^verbatim>\<open>auth-expert\<close> gives \<^verbatim>\<open>Auth Expert\<close>, \<^verbatim>\<open>chamber-10\<close> gives
  \<^verbatim>\<open>Chamber 10\<close>. The formatter has no failing branch.
\<close>

theorem badge_label_of_slug:
  "(is_slug s \<longrightarrow> badgeLabel s = join_spaces (map capitalize (slug_words s)))
   \<and> badgeLabel ''auth-expert'' = ''Auth Expert''
   \<and> badgeLabel ''chamber-10'' = ''Chamber 10''
   \<and> badgeLabel ''workshop-complete'' = ''Workshop Complete''
   \<and> badgeLabel ''microservices'' = ''Microservices''"
proof -
  have "is_slug s \<longrightarrow> badgeLabel s = join_spaces (map capitalize (slug_words s))"
    by (simp add: badgeLabel_def label_words)
  moreover have "badgeLabel ''auth-expert'' = ''Auth Expert''"
    by code_simp
  moreover have "badgeLabel ''chamber-10'' = ''Chamber 10''"
    by code_simp
  moreover have "badgeLabel ''workshop-complete'' = ''Workshop Complete''"
    by code_simp
  moreover have "badgeLabel ''microservices'' = ''Microservices''"
    by code_simp
  ultimately show ?thesis
    by (intro conjI)
qed

theorem badge_label_of_slug_witness:
  "is_slug ''di-ninja'' \<and> slug_words ''di-ninja'' = [''di'', ''ninja'']
   \<and> map capitalize [''di'', ''ninja''] = [''Di'', ''Ninja'']
   \<and> badgeLabel ''di-ninja'' = ''Di Ninja''"
proof -
  have s: "is_slug ''di-ninja''"
    by code_simp
  have w: "slug_words ''di-ninja'' = [''di'', ''ninja'']"
    by code_simp
  have c: "map capitalize [''di'', ''ninja''] = [''Di'', ''Ninja'']"
    by code_simp
  have "join_spaces [''Di'', ''Ninja''] = ''Di Ninja''"
    by code_simp
  with badge_label_of_slug [of "''di-ninja''"] s w c show ?thesis
    by simp
qed

section \<open>Properties of the commit utility\<close>

lemma commit_in_dir_out:
  "out (commit_in_dir w msg d sh) =
     out sh @ Echo (Processing d) #
       (if is_dir w d
        then GitAddAll d #
          (if diff_cached_quiet w d then [Echo (NoChanges d)]
           else [GitCommit d msg, Echo (Committed d)])
        else [])"
  by (simp add: commit_in_dir_def emit_def Let_def)

lemma in_commit_in_dir:
  "e \<in> set (out (commit_in_dir w msg d sh)) \<longleftrightarrow>
     e \<in> set (out sh) \<or> e = Echo (Processing d)
     \<or> (is_dir w d \<and>
          (e = GitAddAll d
           \<or> (diff_cached_quiet w d \<and> e = Echo (NoChanges d))
           \<or> (\<not> diff_cached_quiet w d \<and> (e = GitCommit d msg \<or> e = Echo (Committed d)))))"
  by (simp add: commit_in_dir_out) blast

lemma consistent_commit_in_dir:
  assumes "consistent w msg (out sh)"
  shows "consistent w msg (out (commit_in_dir w msg d sh))"
proof -
  let ?es = "out (commit_in_dir w msg d sh)"
  have a: "GitAddAll x \<in> set ?es \<longleftrightarrow> Echo (Processing x) \<in> set ?es \<and> is_dir w x" for x
    using assms unfolding consistent_def in_commit_in_dir by blast
  have b: "GitCommit x m \<in> set ?es \<longleftrightarrow>
      m = msg \<and> GitAddAll x \<in> set ?es \<and> \<not> diff_cached_quiet w x" for x m
    using assms unfolding consistent_def in_commit_in_dir by blast
  have c: "Echo (NoChanges x) \<in> set ?es \<longleftrightarrow> GitAddAll x \<in> set ?es \<and> diff_cached_quiet w x"
    for x
    using assms unfolding consistent_def in_commit_in_dir by blast
  from a b c show ?thesis
    unfolding consistent_def by blast
qed

lemma consistent_for_subrepos:
  "consistent w msg (out sh) \<Longrightarrow> consistent w msg (out (for_subrepos w msg main subs sh))"
proof (induction subs arbitrary: sh)
  case Nil
  then show ?case by simp
next
  case (Cons s subs)
  show ?case
  proof (cases "is_dir w (cwd sh @ [s, ''.git''])")
    case True
    with Cons.IH [OF consistent_commit_in_dir [OF Cons.prems]] show ?thesis
      by simp
  next
    case False
    with Cons.IH [OF Cons.prems] show ?thesis
      by simp
  qed
qed

lemma for_subrepos_skip:
  "cwd sh = main \<Longrightarrow> \<forall>t\<in>set pre. \<not> is_dir w (main @ [t, ''.git'']) \<Longrightarrow>
     for_subrepos w msg main (pre @ others) sh = for_subrepos w msg main others sh"
  by (induction pre) simp_all

lemma for_subrepos_keeps:
  "e \<in> set (out sh) \<Longrightarrow> e \<in> set (out (for_subrepos w msg main subs sh))"
proof (induction subs arbitrary: sh)
  case Nil
  then show ?case by simp
next
  case (Cons s subs)
  then show ?case by (simp add: in_commit_in_dir)
qed

lemma for_subrepos_processing:
  "Echo (Processing d) \<in> set (out (for_subrepos w msg main subs sh)) \<Longrightarrow>
     Echo (Processing d) \<in> set (out sh) \<or> d \<in> (\<lambda>s. main @ [s]) ` set subs"
proof (induction subs arbitrary: sh)
  case Nil
  then show ?case by simp
next
  case (Cons s subs)
  show ?case
  proof (cases "is_dir w (cwd sh @ [s, ''.git''])")
    case True
    with Cons.prems
    have "Echo (Processing d)
            \<in> set (out (for_subrepos w msg main subs (commit_in_dir w msg (main @ [s]) sh)))"
      by simp
    from Cons.IH [OF this] show ?thesis
      by (auto simp: in_commit_in_dir)
  next
    case False
    with Cons.prems
    have "Echo (Processing d) \<in> set (out (for_subrepos w msg main subs sh))"
      by simp
    from Cons.IH [OF this] show ?thesis
      by auto
  qed
qed

lemma events_commit_all:
  "msg \<noteq> [] \<Longrightarrow>
     events (commit_all w main (msg # more_args)) =
       out (commit_in_dir w msg main
             ((for_subrepos w msg main subrepos \<lparr>cwd = main, out = []\<rparr>)\<lparr>cwd := main\<rparr>))
       @ [Echo AllProcessed]"
  by (simp add: commit_all_def emit_def Let_def commit_in_dir_out)

lemma consistent_events:
  assumes "msg \<noteq> []"
  shows "consistent w msg (events (commit_all w main (msg # more_args)))"
proof -
  let ?sh1 = "for_subrepos w msg main subrepos \<lparr>cwd = main, out = []\<rparr>"
  have "consistent w msg (out ?sh1)"
    by (rule consistent_for_subrepos) (simp add: consistent_def)
  then have "consistent w msg (out (?sh1\<lparr>cwd := main\<rparr>))"
    by simp
  then have "consistent w msg (out (commit_in_dir w msg main (?sh1\<lparr>cwd := main\<rparr>)))"
    by (rule consistent_commit_in_dir)
  then have "consistent w msg
      (out (commit_in_dir w msg main (?sh1\<lparr>cwd := main\<rparr>)) @ [Echo AllProcessed])"
    unfolding consistent_def by simp
  then show ?thesis
    by (simp only: events_commit_all [OF assms])
qed

lemma distinct_subrepos: "distinct subrepos"
  by (simp add: subrepos_def)

text \<open>
  Claim C4, as stated, fails for the containing directory: the script enters it and
  runs \<^verbatim>\<open>git add -A\<close> and \<^verbatim>\<open>git commit\<close> there without looking for \<^verbatim>\<open>.git\<close>. In the
  directory \<^verbatim>\<open>/srv/workshop\<close>, which has no \<^verbatim>\<open>.git\<close> directory of its own and lies in the
  work tree of a repository at \<^verbatim>\<open>/srv\<close>, the script stages and commits.
\<close>

theorem commit_without_metadata_directory_counterexample:
  "\<not> is_dir \<lparr>dirs = [[''srv''], [''srv'', ''.git''], [''srv'', ''workshop'']], clean = []\<rparr>
        ([''srv'', ''workshop''] @ [''.git''])
   \<and> GitAddAll [''srv'', ''workshop'']
       \<in> set (events (commit_all
             \<lparr>dirs = [[''srv''], [''srv'', ''.git''], [''srv'', ''workshop'']], clean = []\<rparr>
             [''srv'', ''workshop''] [''wip'']))
   \<and> GitCommit [''srv'', ''workshop''] ''wip''
       \<in> set (events (commit_all
             \<lparr>dirs = [[''srv''], [''srv'', ''.git''], [''srv'', ''workshop'']], clean = []\<rparr>
             [''srv'', ''workshop''] [''wip'']))"
proof -
  have "events (commit_all
          \<lparr>dirs = [[''srv''], [''srv'', ''.git''], [''srv'', ''workshop'']], clean = []\<rparr>
          [''srv'', ''workshop''] [''wip''])
        = [Echo (Processing [''srv'', ''workshop'']), GitAddAll [''srv'', ''workshop''],
           GitCommit [''srv'', ''workshop''] ''wip'', Echo (Committed [''srv'', ''workshop'']),
           Echo AllProcessed]"
    by (simp add: commit_all_def subrepos_def commit_in_dir_def emit_def is_dir_def
        diff_cached_quiet_def Let_def)
  then show ?thesis
    by (simp add: is_dir_def)
qed

text \<open>
  The shell stays where \<^verbatim>\<open>commit_in_dir\<close> went. With \<^verbatim>\<open>.git\<close> directories in both
  \<^verbatim>\<open>instructor-service\<close> and \<^verbatim>\<open>instructor-ui\<close>, the test for the second is made inside the
  first, finds nothing, and \<^verbatim>\<open>instructor-ui\<close> is not processed.
\<close>

lemma later_subrepo_test_after_cd:
  "is_dir \<lparr>dirs = [[''w''], [''w'', ''instructor-service''],
                   [''w'', ''instructor-service'', ''.git''], [''w'', ''instructor-ui''],
                   [''w'', ''instructor-ui'', ''.git'']], clean = []\<rparr>
          [''w'', ''instructor-ui'', ''.git'']
   \<and> events (commit_all
        \<lparr>dirs = [[''w''], [''w'', ''instructor-service''],
                 [''w'', ''instructor-service'', ''.git''], [''w'', ''instructor-ui''],
                 [''w'', ''instructor-ui'', ''.git'']], clean = []\<rparr> [''w''] [''wip''])
      = [Echo (Processing [''w'', ''instructor-service'']),
         GitAddAll [''w'', ''instructor-service''],
         GitCommit [''w'', ''instructor-service''] ''wip'',
         Echo (Committed [''w'', ''instructor-service'']),
         Echo (Processing [''w'']), GitAddAll [''w''], GitCommit [''w''] ''wip'',
         Echo (Committed [''w'']), Echo AllProcessed]"
  by (simp add: commit_all_def subrepos_def commit_in_dir_def emit_def is_dir_def
      diff_cached_quiet_def Let_def)

text \<open>
  Claim C4, amended. Given a message, a named subdirectory that is reached while the
  shell is still in the containing directory (no subdirectory listed before it holds a
  \<^verbatim>\<open>.git\<close> directory) is processed exactly when it holds a \<^verbatim>\<open>.git\<close> directory; the
  containing directory is always processed, as the last one, with no check for \<^verbatim>\<open>.git\<close>.
  A directory is staged exactly when it is processed and can be entered; where nothing
  is then staged the notice is printed and no commit is made, otherwise the commit is
  made with the given message; and no other commit is made.
\<close>

theorem commit_all_directories:
  assumes "msg \<noteq> []"
  shows
    "let evs = events (commit_all w main (msg # more_args)); E = set evs
     in (\<forall>pre sub post.
           subrepos = pre @ sub # post \<and> (\<forall>t\<in>set pre. \<not> is_dir w (main @ [t, ''.git''])) \<longrightarrow>
             (Echo (Processing (main @ [sub])) \<in> E \<longleftrightarrow> is_dir w (main @ [sub, ''.git''])))
        \<and> (\<exists>before after. evs = before @ Echo (Processing main) # after
              \<and> (\<forall>d. Echo (Processing d) \<notin> set after))
        \<and> (\<forall>d. GitAddAll d \<in> E \<longleftrightarrow> Echo (Processing d) \<in> E \<and> is_dir w d)
        \<and> (\<forall>d. Echo (NoChanges d) \<in> E \<longleftrightarrow> GitAddAll d \<in> E \<and> diff_cached_quiet w d)
        \<and> (\<forall>d m. GitCommit d m \<in> E \<longleftrightarrow> m = msg \<and> GitAddAll d \<in> E \<and> \<not> diff_cached_quiet w d)"
proof -
  let ?sh0 = "\<lparr>cwd = main, out = []\<rparr>"
  let ?sh1 = "for_subrepos w msg main subrepos ?sh0"
  let ?evs = "events (commit_all w main (msg # more_args))"
  let ?E = "set ?evs"
  have ev: "?evs = out (commit_in_dir w msg main (?sh1\<lparr>cwd := main\<rparr>)) @ [Echo AllProcessed]"
    by (rule events_commit_all [OF assms])
  have mem: "e \<in> ?E \<longleftrightarrow>
      e \<in> set (out ?sh1) \<or> e = Echo (Processing main)
      \<or> (is_dir w main \<and>
          (e = GitAddAll main
           \<or> (diff_cached_quiet w main \<and> e = Echo (NoChanges main))
           \<or> (\<not> diff_cached_quiet w main
                \<and> (e = GitCommit main msg \<or> e = Echo (Committed main)))))
      \<or> e = Echo AllProcessed" for e
    unfolding ev by (simp add: in_commit_in_dir) blast
  have gate: "Echo (Processing (main @ [sub])) \<in> ?E \<longleftrightarrow> is_dir w (main @ [sub, ''.git''])"
    if split: "subrepos = pre @ sub # post"
      and lack: "\<forall>t\<in>set pre. \<not> is_dir w (main @ [t, ''.git''])" for pre sub post
  proof -
    have fresh: "sub \<notin> set post"
      using distinct_subrepos unfolding split by simp
    have sh1: "?sh1 = for_subrepos w msg main (sub # post) ?sh0"
      unfolding split by (rule for_subrepos_skip) (simp_all add: lack)
    show ?thesis
    proof (cases "is_dir w (main @ [sub, ''.git''])")
      case True
      then have "?sh1 = for_subrepos w msg main post (commit_in_dir w msg (main @ [sub]) ?sh0)"
        unfolding sh1 by simp
      moreover have "Echo (Processing (main @ [sub]))
          \<in> set (out (commit_in_dir w msg (main @ [sub]) ?sh0))"
        by (simp add: in_commit_in_dir)
      ultimately have "Echo (Processing (main @ [sub])) \<in> set (out ?sh1)"
        by (simp add: for_subrepos_keeps)
      with True show ?thesis
        by (simp add: mem)
    next
      case False
      then have "?sh1 = for_subrepos w msg main post ?sh0"
        unfolding sh1 by simp
      with for_subrepos_processing [of "main @ [sub]" w msg main post ?sh0] fresh
      have "Echo (Processing (main @ [sub])) \<notin> set (out ?sh1)"
        by auto
      with False show ?thesis
        by (simp add: mem)
    qed
  qed
  have last: "\<exists>before after. ?evs = before @ Echo (Processing main) # after
      \<and> (\<forall>d. Echo (Processing d) \<notin> set after)"
  proof -
    let ?after = "(if is_dir w main
        then GitAddAll main #
          (if diff_cached_quiet w main then [Echo (NoChanges main)]
           else [GitCommit main msg, Echo (Committed main)])
        else []) @ [Echo AllProcessed]"
    have "?evs = out ?sh1 @ Echo (Processing main) # ?after"
      unfolding ev by (simp add: commit_in_dir_out)
    moreover have "\<forall>d. Echo (Processing d) \<notin> set ?after"
      by simp
    ultimately show ?thesis
      by blast
  qed
  have cons: "consistent w msg ?evs"
    by (rule consistent_events [OF assms])
  then have staged: "GitAddAll d \<in> ?E \<longleftrightarrow> Echo (Processing d) \<in> ?E \<and> is_dir w d" for d
    unfolding consistent_def by blast
  from cons have notice: "Echo (NoChanges d) \<in> ?E \<longleftrightarrow> GitAddAll d \<in> ?E \<and> diff_cached_quiet w d"
    for d
    unfolding consistent_def by blast
  from cons have commits: "GitCommit d m \<in> ?E \<longleftrightarrow>
      m = msg \<and> GitAddAll d \<in> ?E \<and> \<not> diff_cached_quiet w d" for d m
    unfolding consistent_def by blast
  from gate last staged notice commits show ?thesis
    unfolding Let_def by (intro conjI allI impI) blast+
qed

theorem commit_all_directories_witness:
  "let w = \<lparr>dirs = [[''w''], [''w'', ''instructor-service''],
                    [''w'', ''instructor-service'', ''.git'']],
            clean = [[''w'']]\<rparr>;
       E = set (events (commit_all w [''w''] [''wip'']))
   in ''wip'' \<noteq> []
      \<and> subrepos = [] @ ''instructor-service'' # [''instructor-ui'', ''participant-service'']
      \<and> is_dir w ([''w''] @ [''instructor-service'', ''.git''])
      \<and> Echo (Processing ([''w''] @ [''instructor-service''])) \<in> E
      \<and> is_dir w [''w'', ''instructor-service'']
      \<and> GitAddAll [''w'', ''instructor-service''] \<in> E
      \<and> \<not> diff_cached_quiet w [''w'', ''instructor-service'']
      \<and> GitCommit [''w'', ''instructor-service''] ''wip'' \<in> E
      \<and> Echo (Processing [''w'']) \<in> E
      \<and> GitAddAll [''w''] \<in> E
      \<and> diff_cached_quiet w [''w'']
      \<and> Echo (NoChanges [''w'']) \<in> E
      \<and> GitCommit [''w''] ''wip'' \<notin> E"
proof -
  have h: "''wip'' \<noteq> []"
    by simp
  have "events (commit_all
          \<lparr>dirs = [[''w''], [''w'', ''instructor-service''],
                   [''w'', ''instructor-service'', ''.git'']],
           clean = [[''w'']]\<rparr> [''w''] [''wip''])
        = [Echo (Processing [''w'', ''instructor-service'']),
           GitAddAll [''w'', ''instructor-service''],
           GitCommit [''w'', ''instructor-service''] ''wip'',
           Echo (Committed [''w'', ''instructor-service'']),
           Echo (Processing [''w'']), GitAddAll [''w''], Echo (NoChanges [''w'']),
           Echo AllProcessed]"
    by (simp add: commit_all_def subrepos_def commit_in_dir_def emit_def is_dir_def
        diff_cached_quiet_def Let_def)
  with commit_all_directories
    [OF h, of "\<lparr>dirs = [[''w''], [''w'', ''instructor-service''],
                        [''w'', ''instructor-service'', ''.git'']],
                clean = [[''w'']]\<rparr>" "[''w'']" "[]"]
  show ?thesis
    by (simp add: subrepos_def is_dir_def diff_cached_quiet_def Let_def)
qed

text \<open>
  Claim C9. Called with no argument (or with an empty first argument) the script prints
  the usage line and exits with status 1; it announces, stages and commits nothing.
\<close>

theorem usage_when_no_message:
  "commit_all w pwd [] = \<lparr>status = 1, events = [Echo Usage]\<rparr>
   \<and> commit_all w pwd ([] # more_args) = \<lparr>status = 1, events = [Echo Usage]\<rparr>
   \<and> status (commit_all w pwd []) \<noteq> 0
   \<and> (\<forall>d m. Echo (Processing d) \<notin> set (events (commit_all w pwd []))
          \<and> GitAddAll d \<notin> set (events (commit_all w pwd []))
          \<and> GitCommit d m \<notin> set (events (commit_all w pwd [])))"
  by (simp add: commit_all_def)

end
